theory Spec2Isabelle
  imports Main "HOL-Library.Word"
begin

section \<open>The ICU transliterator wrapper (src/lib/icu/Transliterator.cxx)\<close>

subsection \<open>Machine types\<close>

type_synonym UChar = "16 word"
type_synonym int32_t = "32 word"
type_synonym UErrorCode = int

text \<open>
  \<open>size_t\<close> values are natural numbers below \<open>2 ^ 64\<close>. The source converts between
  \<open>size_t\<close> and \<open>int32_t\<close> implicitly: \<open>int32_t length = src.size()\<close> and the
  \<open>textCapacity\<close> argument keep the low 32 bits, \<open>dest.SetSize(length)\<close> sign-extends.
\<close>

definition size_to_int32 :: "nat \<Rightarrow> int32_t" where
  "size_to_int32 n = of_nat n"

definition int32_to_size :: "int32_t \<Rightarrow> nat" where
  "int32_to_size x = unat (scast x :: 64 word)"

subsection \<open>The ICU status codes the wrapper looks at\<close>

definition U_ZERO_ERROR :: UErrorCode where
  "U_ZERO_ERROR = 0"

definition U_ILLEGAL_ARGUMENT_ERROR :: UErrorCode where
  "U_ILLEGAL_ARGUMENT_ERROR = 1"

definition U_BUFFER_OVERFLOW_ERROR :: UErrorCode where
  "U_BUFFER_OVERFLOW_ERROR = 15"

definition U_STRING_NOT_TERMINATED_WARNING :: UErrorCode where
  "U_STRING_NOT_TERMINATED_WARNING = - 124"

text \<open>ICU's macro \<open>U_FAILURE(x)\<close> is \<open>((x) > U_ZERO_ERROR)\<close>: warnings are negative.\<close>

definition U_FAILURE :: "UErrorCode \<Rightarrow> bool" where
  "U_FAILURE x = (x > U_ZERO_ERROR)"

subsection \<open>AllocatedArray\<close>

text \<open>
  An \<open>AllocatedArray<T>\<close> is a pointer to heap cells with a declared size. The pointer is
  \<open>None\<close> for the null array; a cell is \<open>None\<close> until it has been written
  (\<open>new T[n]\<close> leaves the cells of a character array indeterminate).
\<close>

record 'a AllocatedArray =
  array_data :: "'a option list option"
  array_size :: nat

definition AllocatedArray_nullptr :: "'a AllocatedArray" where
  "AllocatedArray_nullptr = \<lparr>array_data = None, array_size = 0\<rparr>"

definition AllocatedArray_new :: "nat \<Rightarrow> 'a AllocatedArray" where
  "AllocatedArray_new n = \<lparr>array_data = Some (replicate n None), array_size = n\<rparr>"

definition array_cells :: "'a AllocatedArray \<Rightarrow> 'a option list" where
  "array_cells a = (case array_data a of None \<Rightarrow> [] | Some cs \<Rightarrow> cs)"

text \<open>\<open>std::copy(src.begin(), src.end(), dest.begin())\<close>\<close>

definition std_copy :: "'a list \<Rightarrow> 'a AllocatedArray \<Rightarrow> 'a AllocatedArray" where
  "std_copy src dest =
     dest\<lparr>array_data := Some (map Some src @ drop (length src) (array_cells dest))\<rparr>"

text \<open>\<open>SetSize\<close> declares a new size; the cells stay where they are.\<close>

definition SetSize :: "nat \<Rightarrow> 'a AllocatedArray \<Rightarrow> 'a AllocatedArray" where
  "SetSize n a = a\<lparr>array_size := n\<rparr>"

text \<open>The text an array holds: its first \<open>array_size\<close> cells, if all of them were written.\<close>

definition array_text :: "'a AllocatedArray \<Rightarrow> 'a list option" where
  "array_text a =
     (case array_data a of
        None \<Rightarrow> None
      | Some cs \<Rightarrow>
          if array_size a \<le> length cs \<and> list_all (\<lambda>c. c \<noteq> None) (take (array_size a) cs)
          then Some (map the (take (array_size a) cs)) else None)"

subsection \<open>The call into ICU\<close>

text \<open>
  \<open>utrans_transUChars(trans, text, &textLength, textCapacity, start, &limit, &status)\<close>
  belongs to the ICU library. The wrapper is verified for an arbitrary function of this
  type, which stands for the call with the member \<open>transliterator\<close> as its first
  argument: it receives the buffer and the in-values of the pointer arguments and returns
  the buffer and the out-values.
\<close>

record utrans_out =
  out_text :: "UChar option list"
  out_length :: int32_t
  out_limit :: int32_t
  out_status :: UErrorCode

type_synonym utrans_fn =
  "UChar option list \<Rightarrow> int32_t \<Rightarrow> int32_t \<Rightarrow> int32_t \<Rightarrow> int32_t \<Rightarrow> UErrorCode \<Rightarrow> utrans_out"

subsection \<open>IcuTransliterator::Transliterate\<close>

definition Transliterate :: "utrans_fn \<Rightarrow> UChar list \<Rightarrow> UChar AllocatedArray" where
  "Transliterate utrans_transUChars src =
     (let dest = AllocatedArray_new ((length src * 2) mod 2 ^ 64);
          dest = std_copy src dest;
          length0 = size_to_int32 (length src);
          limit = length0;
          status = U_ZERO_ERROR;
          r = utrans_transUChars (array_cells dest)
                length0 (size_to_int32 (array_size dest))
                0 limit
                status
      in if U_FAILURE (out_status r) then AllocatedArray_nullptr
         else SetSize (int32_to_size (out_length r)) (dest\<lparr>array_data := Some (out_text r)\<rparr>))"

subsection \<open>The documented behaviour of the ICU call\<close>

text \<open>
  ICU documents \<open>utrans_transUChars\<close> so: the text between \<open>start\<close> and \<open>limit\<close> is
  transliterated in place; the full length of the result is stored in \<open>textLength\<close> even
  when it is larger than \<open>textCapacity\<close>, only \<open>textCapacity\<close> characters are written,
  and the status is \<open>U_BUFFER_OVERFLOW_ERROR\<close> when the result does not fit,
  \<open>U_STRING_NOT_TERMINATED_WARNING\<close> when it fits without its terminator. A status
  that is already a failure on entry makes the call return at once. The rule set of the
  transliterator is the function \<open>rules\<close>. Arguments outside
  \<open>0 \<le> start \<le> limit \<le> textLength\<close> and \<open>0 \<le> textCapacity\<close> are answered here with
  \<open>U_ILLEGAL_ARGUMENT_ERROR\<close>; ICU reads a negative \<open>textLength\<close> as "terminated by
  NUL", which the wrapper passes only for inputs of \<open>2 ^ 31\<close> characters or more, and
  no theorem below is about those. This definition is used to run the wrapper on
  concrete inputs and to relate it to what the library computes.
\<close>

definition icu_transUChars :: "(UChar list \<Rightarrow> UChar list) \<Rightarrow> utrans_fn" where
  "icu_transUChars rules text textLength textCapacity start limit status =
     (if U_FAILURE status \<or> sint textLength < 0 \<or> sint textCapacity < 0
         \<or> sint start < 0 \<or> sint limit < sint start \<or> sint textLength < sint limit
         \<or> \<not> list_all (\<lambda>c. c \<noteq> None) (take (nat (sint textLength)) text)
      then \<lparr>out_text = text, out_length = textLength, out_limit = limit,
             out_status = (if U_FAILURE status then status else U_ILLEGAL_ARGUMENT_ERROR)\<rparr>
      else
        let str = map the (take (nat (sint textLength)) text);
            s = nat (sint start);
            l = nat (sint limit);
            mid = rules (take (l - s) (drop s str));
            res = take s str @ mid @ drop l str;
            cap = nat (sint textCapacity);
            written = take cap res
        in \<lparr>out_text = map Some written @ drop (length written) text,
             out_length = of_nat (length res),
             out_limit = of_nat (s + length mid),
             out_status =
               (if cap < length res then U_BUFFER_OVERFLOW_ERROR
                else if cap = length res then U_STRING_NOT_TERMINATED_WARNING
                else U_ZERO_ERROR)\<rparr>)"

text \<open>Two rule sets to run the wrapper on: one keeps every character, one triples it.\<close>

fun keep_each :: "UChar list \<Rightarrow> UChar list" where
  "keep_each [] = []"
| "keep_each (c # cs) = c # keep_each cs"

fun triple_each :: "UChar list \<Rightarrow> UChar list" where
  "triple_each [] = []"
| "triple_each (c # cs) = c # c # c # triple_each cs"

text \<open>
  What \<open>icu_transUChars\<close> answers when the wrapper calls it: the whole text is
  transliterated into a buffer of twice its length.
\<close>

definition icu_whole :: "(UChar list \<Rightarrow> UChar list) \<Rightarrow> UChar list \<Rightarrow> utrans_out" where
  "icu_whole rules src =
     \<lparr>out_text = map Some (take (2 * length src) (rules src))
                   @ drop (length (take (2 * length src) (rules src)))
                       (map Some src @ replicate (length src) None),
      out_length = of_nat (length (rules src)),
      out_limit = of_nat (length (rules src)),
      out_status =
        (if 2 * length src < length (rules src) then U_BUFFER_OVERFLOW_ERROR
         else if 2 * length src = length (rules src) then U_STRING_NOT_TERMINATED_WARNING
         else U_ZERO_ERROR)\<rparr>"

section \<open>The Snapcast output (src/output/plugins/snapcast/Internal.hxx)\<close>

subsection \<open>Data\<close>

type_synonym byte = "8 word"
type_synonym client_id = nat
type_synonym time_point = nat
type_synonym socket_fd = nat

record AudioFormat =
  sample_rate :: nat
  sample_bits :: nat
  channels :: nat

text \<open>What a client receives: the codec header, or a wire chunk with its time stamp.\<close>

datatype wire_message = CodecHeader "byte list" | WireChunk "byte list" time_point

fun is_chunk :: "wire_message \<Rightarrow> bool" where
  "is_chunk (WireChunk payload t) = True"
| "is_chunk (CodecHeader h) = False"

datatype error = OpenError | EncoderRuntimeError | NotOpen

text \<open>
  The encoder plugin is a black box with a feed/drain/flush contract. \<open>None\<close> is a
  failure of the plugin. \<open>enc_open\<close> returns the encoder instance and its codec header.
\<close>

record 'e PreparedEncoder =
  enc_open :: "AudioFormat \<Rightarrow> ('e \<times> byte list) option"
  enc_feed :: "'e \<Rightarrow> byte list \<Rightarrow> (nat \<times> 'e) option"
  enc_drain :: "'e \<Rightarrow> (byte list \<times> 'e) option"
  enc_flush :: "'e \<Rightarrow> (byte list \<times> 'e) option"
  enc_cancel :: "'e \<Rightarrow> 'e"

text \<open>
  The configuration: the member \<open>prepared_encoder\<close>, which is set at construction and
  never changes, and the byte threshold of the flush heuristic.
\<close>

record 'e Config =
  prepared_encoder :: "'e PreparedEncoder"
  flush_threshold :: nat

text \<open>
  The members of \<open>class SnapcastOutput\<close>: \<open>open\<close>, \<open>encoder\<close> (\<open>None\<close> is
  \<open>nullptr\<close>), \<open>codec_header\<close> (\<open>None\<close> is the null array), \<open>unflushed_input\<close>,
  \<open>timer\<close>, \<open>clients\<close> in insertion order, \<open>mutex\<close> (\<open>True\<close> while it is held) and
  the listener socket of the base class \<open>ServerSocket\<close>. A \<open>SnapcastClient\<close> object is
  named by a \<open>client_id\<close>. The remaining fields are history, kept to state the
  properties: what each client was sent, which client objects were destroyed, how
  many bytes the encoder consumed, how many bytes it emitted and how often it was
  flushed.
\<close>

record 'e SnapcastOutput =
  open_flag :: bool
  encoder :: "'e option"
  codec_header :: "byte list option"
  unflushed_input :: nat
  timer :: "AudioFormat option"
  clients :: "client_id list"
  mutex :: bool
  bound :: bool
  next_client :: client_id
  connection :: "client_id \<Rightarrow> socket_fd option"
  sent :: "client_id \<Rightarrow> wire_message list"
  disposed :: "client_id list"
  encoder_consumed :: nat
  encoder_emitted :: nat
  flush_calls :: nat

subsection \<open>The member functions defined in the header\<close>

definition HasClients :: "'e SnapcastOutput \<Rightarrow> bool" where
  "HasClients s = (\<not> List.null (clients s))"

text \<open>
  \<open>std::lock_guard\<close> acquires the mutex and releases it when the scope ends. The mutex
  is not recursive: acquiring it while it is held does not return.
\<close>

definition lock_guard :: "'e SnapcastOutput \<Rightarrow> 'e SnapcastOutput option" where
  "lock_guard s = (if mutex s then None else Some (s\<lparr>mutex := True\<rparr>))"

definition lock_guard_release :: "'e SnapcastOutput \<Rightarrow> 'e SnapcastOutput" where
  "lock_guard_release s = s\<lparr>mutex := False\<rparr>"

definition LockHasClients :: "'e SnapcastOutput \<Rightarrow> (bool \<times> 'e SnapcastOutput) option" where
  "LockHasClients s =
     (case lock_guard s of
        None \<Rightarrow> None
      | Some protect \<Rightarrow> let r = HasClients protect in Some (r, lock_guard_release protect))"

definition GetCodecName :: "'e SnapcastOutput \<Rightarrow> string" where
  "GetCodecName s = ''pcm''"

text \<open>A \<open>ConstBuffer\<close> over the null array is empty.\<close>

definition GetCodecHeader :: "'e SnapcastOutput \<Rightarrow> byte list" where
  "GetCodecHeader s = (case codec_header s of None \<Rightarrow> [] | Some h \<Rightarrow> h)"

text \<open>
  Modelled from the spec: the body of \<open>Bind\<close> is not in the header. It begins listening
  and is a no-op if already bound.
\<close>

definition Bind :: "'e SnapcastOutput \<Rightarrow> 'e SnapcastOutput" where
  "Bind s = (if bound s then s else s\<lparr>bound := True\<rparr>)"

text \<open>
  Modelled from the spec: the body of \<open>Unbind\<close> is not in the header. It stops
  listening and does not require the server to be open.
\<close>

definition Unbind :: "'e SnapcastOutput \<Rightarrow> 'e SnapcastOutput" where
  "Unbind s = s\<lparr>bound := False\<rparr>"

definition Enable :: "'e SnapcastOutput \<Rightarrow> 'e SnapcastOutput" where
  "Enable s = Bind s"

definition Disable :: "'e SnapcastOutput \<Rightarrow> 'e SnapcastOutput" where
  "Disable s = Unbind s"

subsection \<open>The member functions whose bodies are not in the header\<close>

text \<open>
  Modelled from the spec: the constructor \<open>SnapcastOutput::SnapcastOutput\<close> is missing.
  The server starts \<open>Closed\<close> with no clients; \<open>encoder = nullptr\<close> and
  \<open>unflushed_input = 0\<close> are the initialisers of the header.
\<close>

definition initial :: "'e SnapcastOutput" where
  "initial =
     \<lparr>open_flag = False, encoder = None, codec_header = None, unflushed_input = 0,
      timer = None, clients = [], mutex = False, bound = False, next_client = 0,
      connection = (\<lambda>c. None), sent = (\<lambda>c. []), disposed = [],
      encoder_consumed = 0, encoder_emitted = 0, flush_calls = 0\<rparr>"

text \<open>
  Modelled from the spec: \<open>SnapcastClient\<close> and its send functions are missing. A
  delivery appends the message to what the client has been sent.
\<close>

definition deliver :: "client_id \<Rightarrow> wire_message \<Rightarrow> 'e SnapcastOutput \<Rightarrow> 'e SnapcastOutput" where
  "deliver c m s = s\<lparr>sent := (sent s)(c := sent s c @ [m])\<rparr>"

text \<open>
  Modelled from the spec: the body of \<open>AddClient\<close> is missing (\<open>Enroll\<close> in the spec).
  It wraps the accepted connection into a new client, sends it the current codec header
  at once and links it at the end of \<open>clients\<close>.
\<close>

definition AddClient :: "socket_fd \<Rightarrow> 'e SnapcastOutput \<Rightarrow> 'e SnapcastOutput" where
  "AddClient fd s =
     (let c = next_client s;
          s1 = s\<lparr>next_client := Suc c, connection := (connection s)(c := Some fd)\<rparr>;
          s2 = deliver c (CodecHeader (GetCodecHeader s1)) s1
      in s2\<lparr>clients := clients s2 @ [c]\<rparr>)"

text \<open>
  Modelled from the spec: the body of \<open>RemoveClient\<close> is missing (\<open>Remove\<close> in the
  spec). It unlinks and destroys a client; a client that is no longer linked is left
  alone.
\<close>

definition RemoveClient :: "client_id \<Rightarrow> 'e SnapcastOutput \<Rightarrow> 'e SnapcastOutput" where
  "RemoveClient c s =
     (if c \<in> set (clients s)
      then s\<lparr>clients := remove1 c (clients s), disposed := disposed s @ [c]\<rparr>
      else s)"

text \<open>
  Modelled from the spec: the body of \<open>BroadcastWireChunk\<close> is missing
  (\<open>BroadcastTo\<close> in the spec). Every linked client gets the same payload and time
  stamp, in insertion order; a client whose delivery fails is evicted and the broadcast
  goes on. Which deliveries fail is decided by the network: \<open>failing\<close> lists those
  clients.
\<close>

fun BroadcastTo ::
  "client_id list \<Rightarrow> byte list \<Rightarrow> time_point \<Rightarrow> client_id list \<Rightarrow> 'e SnapcastOutput
     \<Rightarrow> 'e SnapcastOutput" where
  "BroadcastTo [] payload t failing s = s"
| "BroadcastTo (c # cs) payload t failing s =
     BroadcastTo cs payload t failing
       (if c \<in> set failing then RemoveClient c s else deliver c (WireChunk payload t) s)"

definition BroadcastWireChunk ::
  "byte list \<Rightarrow> time_point \<Rightarrow> client_id list \<Rightarrow> 'e SnapcastOutput \<Rightarrow> 'e SnapcastOutput" where
  "BroadcastWireChunk payload t failing s = BroadcastTo (clients s) payload t failing s"

text \<open>
  Modelled from the spec: the body of \<open>OpenEncoder\<close> is missing (\<open>Open\<close> of the
  encoder adapter). It constructs the encoder instance and stores the codec header, or
  fails with \<open>OpenError\<close>.
\<close>

definition OpenEncoder ::
  "'e Config \<Rightarrow> AudioFormat \<Rightarrow> 'e SnapcastOutput \<Rightarrow> error + 'e SnapcastOutput" where
  "OpenEncoder cfg audio_format s =
     (case enc_open (prepared_encoder cfg) audio_format of
        None \<Rightarrow> Inl OpenError
      | Some (e, header) \<Rightarrow> Inr (s\<lparr>encoder := Some e, codec_header := Some header\<rparr>))"

text \<open>
  Modelled from the spec: the body of \<open>Open\<close> is missing. It fails if the encoder
  cannot be opened and then leaves the server as it was; on success it binds the timing
  source and the server is \<open>Open\<close>.
\<close>

definition Open ::
  "'e Config \<Rightarrow> AudioFormat \<Rightarrow> 'e SnapcastOutput \<Rightarrow> error + 'e SnapcastOutput" where
  "Open cfg audio_format s =
     (case OpenEncoder cfg audio_format s of
        Inl e \<Rightarrow> Inl e
      | Inr s1 \<Rightarrow> Inr (s1\<lparr>timer := Some audio_format, open_flag := True\<rparr>))"

text \<open>
  Modelled from the spec: \<open>Feed\<close> of the encoder adapter, part of the missing body of
  \<open>Play\<close>. It pushes the buffer into the encoder and adds the amount consumed to
  \<open>unflushed_input\<close>.
\<close>

definition Feed ::
  "'e Config \<Rightarrow> byte list \<Rightarrow> 'e SnapcastOutput \<Rightarrow> error + (nat \<times> 'e SnapcastOutput)" where
  "Feed cfg buffer s =
     (case encoder s of
        None \<Rightarrow> Inl NotOpen
      | Some e \<Rightarrow>
          (case enc_feed (prepared_encoder cfg) e buffer of
             None \<Rightarrow> Inl EncoderRuntimeError
           | Some (consumed, e1) \<Rightarrow>
               Inr (consumed,
                    s\<lparr>encoder := Some e1,
                      unflushed_input := unflushed_input s + consumed,
                      encoder_consumed := encoder_consumed s + consumed\<rparr>)))"

text \<open>
  Modelled from the spec: \<open>Drain\<close> of the encoder adapter, part of the missing body of
  \<open>Play\<close>. It pulls the output that is ready; output that is not empty resets
  \<open>unflushed_input\<close>.
\<close>

definition Drain ::
  "'e Config \<Rightarrow> 'e SnapcastOutput \<Rightarrow> error + (byte list \<times> 'e SnapcastOutput)" where
  "Drain cfg s =
     (case encoder s of
        None \<Rightarrow> Inl NotOpen
      | Some e \<Rightarrow>
          (case enc_drain (prepared_encoder cfg) e of
             None \<Rightarrow> Inl EncoderRuntimeError
           | Some (out, e1) \<Rightarrow>
               Inr (out,
                    s\<lparr>encoder := Some e1,
                      unflushed_input := (if out = [] then unflushed_input s else 0),
                      encoder_emitted := encoder_emitted s + length out\<rparr>)))"

text \<open>
  Modelled from the spec: \<open>Flush\<close> of the encoder adapter, part of the missing bodies
  of \<open>Play\<close> and \<open>Close\<close>. It forces the encoder to emit what it has buffered;
  \<open>unflushed_input\<close> is reset to zero whenever the encoder emits bytes, so output
  that is not empty resets it here as well.
\<close>

definition Flush ::
  "'e Config \<Rightarrow> 'e SnapcastOutput \<Rightarrow> error + (byte list \<times> 'e SnapcastOutput)" where
  "Flush cfg s =
     (case encoder s of
        None \<Rightarrow> Inl NotOpen
      | Some e \<Rightarrow>
          (case enc_flush (prepared_encoder cfg) e of
             None \<Rightarrow> Inl EncoderRuntimeError
           | Some (out, e1) \<Rightarrow>
               Inr (out,
                    s\<lparr>encoder := Some e1,
                      unflushed_input := (if out = [] then unflushed_input s else 0),
                      encoder_emitted := encoder_emitted s + length out,
                      flush_calls := flush_calls s + 1\<rparr>)))"

text \<open>
  Modelled from the spec: the flush heuristic, part of the missing body of \<open>Play\<close>. A
  pure function of \<open>unflushed_input\<close> and the configured threshold; the threshold is
  crossed when the counter has reached it.
\<close>

definition FlushHeuristic :: "nat \<Rightarrow> nat \<Rightarrow> bool" where
  "FlushHeuristic unflushed threshold = (threshold \<le> unflushed)"

text \<open>
  Modelled from the spec: the body of \<open>Play\<close> is missing. Only valid while \<open>Open\<close>;
  it feeds the encoder, drains, applies the flush heuristic (a forced flush resets
  \<open>unflushed_input\<close>) and, if any bytes resulted, broadcasts them with the time stamp
  \<open>now\<close>. It returns the number of input bytes consumed. A failing encoder step is
  propagated and leaves no partially applied state.
\<close>

definition Play ::
  "'e Config \<Rightarrow> byte list \<Rightarrow> time_point \<Rightarrow> client_id list \<Rightarrow> 'e SnapcastOutput
     \<Rightarrow> error + (nat \<times> 'e SnapcastOutput)" where
  "Play cfg chunk now failing s =
     (if \<not> open_flag s then Inl NotOpen
      else
        case Feed cfg chunk s of
          Inl e \<Rightarrow> Inl e
        | Inr (consumed, s1) \<Rightarrow>
            (case Drain cfg s1 of
               Inl e \<Rightarrow> Inl e
             | Inr (out1, s2) \<Rightarrow>
                 (case (if FlushHeuristic (unflushed_input s2) (flush_threshold cfg)
                        then (case Flush cfg s2 of
                                Inl e \<Rightarrow> Inl e
                              | Inr (out2, s3) \<Rightarrow> Inr (out1 @ out2, s3\<lparr>unflushed_input := 0\<rparr>))
                        else Inr (out1, s2)) of
                    Inl e \<Rightarrow> Inl e
                  | Inr (payload, s4) \<Rightarrow>
                      Inr (consumed,
                           if payload = [] then s4
                           else BroadcastWireChunk payload now failing s4))))"

text \<open>
  Modelled from the spec: the body of \<open>Cancel\<close> is missing. It discards the buffered
  encoder state and tells the clients nothing.
\<close>

definition Cancel :: "'e Config \<Rightarrow> 'e SnapcastOutput \<Rightarrow> 'e SnapcastOutput" where
  "Cancel cfg s = s\<lparr>encoder := map_option (enc_cancel (prepared_encoder cfg)) (encoder s)\<rparr>"

text \<open>
  Modelled from the spec: the body of \<open>Pause\<close> is missing. Nothing is fed or broadcast;
  the answer \<open>True\<close> says that the output can stay open.
\<close>

definition Pause :: "'e SnapcastOutput \<Rightarrow> bool \<times> 'e SnapcastOutput" where
  "Pause s = (True, s)"

text \<open>
  Modelled from the spec: the body of \<open>Close\<close> is missing. It flushes and releases the
  encoder, the codec header and the timing binding; the clients stay. On a closed server
  it is a no-op. \<open>Close\<close> is \<open>noexcept\<close>: a failing flush is ignored.
\<close>

definition Close :: "'e Config \<Rightarrow> 'e SnapcastOutput \<Rightarrow> 'e SnapcastOutput" where
  "Close cfg s =
     (if \<not> open_flag s then s
      else
        let s1 = (case Flush cfg s of Inl e \<Rightarrow> s | Inr (out, s') \<Rightarrow> s')
        in s1\<lparr>encoder := None, codec_header := None, timer := None, open_flag := False\<rparr>)"

subsection \<open>Executions\<close>

text \<open>The calls the audio pipeline and the network can make, and what each returns.\<close>

datatype operation =
    OpEnable
  | OpDisable
  | OpOpen AudioFormat
  | OpClose
  | OpPlay "byte list" time_point "client_id list"
  | OpCancel
  | OpPause
  | OpAddClient socket_fd
  | OpRemoveClient client_id

datatype outcome = Returned | Accepted nat | PauseResult bool | Thrown error

fun exec :: "'e Config \<Rightarrow> operation \<Rightarrow> 'e SnapcastOutput \<Rightarrow> outcome \<times> 'e SnapcastOutput" where
  "exec cfg OpEnable s = (Returned, Enable s)"
| "exec cfg OpDisable s = (Returned, Disable s)"
| "exec cfg (OpOpen audio_format) s =
     (case Open cfg audio_format s of Inl e \<Rightarrow> (Thrown e, s) | Inr s1 \<Rightarrow> (Returned, s1))"
| "exec cfg OpClose s = (Returned, Close cfg s)"
| "exec cfg (OpPlay chunk now failing) s =
     (case Play cfg chunk now failing s of
        Inl e \<Rightarrow> (Thrown e, s)
      | Inr (n, s1) \<Rightarrow> (Accepted n, s1))"
| "exec cfg OpCancel s = (Returned, Cancel cfg s)"
| "exec cfg OpPause s = (PauseResult (fst (Pause s)), snd (Pause s))"
| "exec cfg (OpAddClient fd) s = (Returned, AddClient fd s)"
| "exec cfg (OpRemoveClient c) s = (Returned, RemoveClient c s)"

fun run :: "'e Config \<Rightarrow> operation list \<Rightarrow> 'e SnapcastOutput \<Rightarrow> 'e SnapcastOutput" where
  "run cfg [] s = s"
| "run cfg (x # xs) s = run cfg xs (snd (exec cfg x s))"

text \<open>The \<open>bytesAccepted\<close> values that the \<open>Play\<close> calls of an execution return.\<close>

fun accepted :: "'e Config \<Rightarrow> operation list \<Rightarrow> 'e SnapcastOutput \<Rightarrow> nat list" where
  "accepted cfg [] s = []"
| "accepted cfg (x # xs) s =
     (case fst (exec cfg x s) of Accepted n \<Rightarrow> [n] | _ \<Rightarrow> [])
       @ accepted cfg xs (snd (exec cfg x s))"

subsection \<open>Two encoders to run the server on\<close>

text \<open>
  The state is the bytes held back and the bytes ready. The pass-through encoder makes
  every byte ready at once, as "pcm" does; the buffering encoder holds every byte until
  it is flushed.
\<close>

definition example_encoder :: "bool \<Rightarrow> (byte list \<times> byte list) PreparedEncoder" where
  "example_encoder passthrough =
     \<lparr>enc_open = (\<lambda>f. if channels f = 0 then None else Some (([], []), [82, 73, 70, 70])),
      enc_feed = (\<lambda>(held, ready) b.
                    Some (length b, if passthrough then (held, ready @ b) else (held @ b, ready))),
      enc_drain = (\<lambda>(held, ready). Some (ready, (held, []))),
      enc_flush = (\<lambda>(held, ready). Some (held, ([], ready))),
      enc_cancel = (\<lambda>(held, ready). ([], []))\<rparr>"

definition example_config :: "bool \<Rightarrow> nat \<Rightarrow> (byte list \<times> byte list) Config" where
  "example_config passthrough threshold =
     \<lparr>prepared_encoder = example_encoder passthrough, flush_threshold = threshold\<rparr>"

text \<open>A buffering encoder whose flush fails.\<close>

definition example_config_flush_fails :: "nat \<Rightarrow> (byte list \<times> byte list) Config" where
  "example_config_flush_fails threshold =
     \<lparr>prepared_encoder = (example_encoder False)\<lparr>enc_flush := (\<lambda>e. None)\<rparr>,
      flush_threshold = threshold\<rparr>"

definition stereo48k :: AudioFormat where
  "stereo48k = \<lparr>sample_rate = 48000, sample_bits = 16, channels = 2\<rparr>"

subsection \<open>Invariants\<close>

text \<open>The encoder pointer is set exactly while the output is open.\<close>

definition encoder_iff_open :: "'e SnapcastOutput \<Rightarrow> bool" where
  "encoder_iff_open s = ((encoder s \<noteq> None) = open_flag s)"

text \<open>The codec header is defined exactly while the output is open.\<close>

definition header_iff_open :: "'e SnapcastOutput \<Rightarrow> bool" where
  "header_iff_open s = ((codec_header s \<noteq> None) = open_flag s)"

text \<open>What a client has been sent starts with the codec header \<open>h\<close>; the rest is wire chunks.\<close>

fun header_then_chunks :: "byte list \<Rightarrow> wire_message list \<Rightarrow> bool" where
  "header_then_chunks h [] = False"
| "header_then_chunks h (m # ms) = (m = CodecHeader h \<and> list_all is_chunk ms)"

text \<open>
  Client objects not yet created have been sent nothing and are not linked; no client is
  linked twice, destroyed twice, or linked after it was destroyed.
\<close>

definition registry_ok :: "'e SnapcastOutput \<Rightarrow> bool" where
  "registry_ok s =
     (distinct (clients s) \<and> distinct (disposed s)
      \<and> set (clients s) \<inter> set (disposed s) = {}
      \<and> (\<forall>c. next_client s \<le> c \<longrightarrow>
             c \<notin> set (clients s) \<and> c \<notin> set (disposed s) \<and> sent s c = []))"

section \<open>Properties of the transliterator wrapper\<close>

subsection \<open>Conversions that do not wrap\<close>

lemma sint_size_to_int32: "n < 2 ^ 31 \<Longrightarrow> sint (size_to_int32 n) = int n"
  by (simp add: size_to_int32_def signed_of_nat signed_take_bit_int_eq_self)

lemma int32_to_size_of_nat: "n < 2 ^ 31 \<Longrightarrow> int32_to_size (of_nat n) = n"
proof -
  assume n: "n < 2 ^ 31"
  have "sint (of_nat n :: 32 word) = int n"
    using n by (simp add: signed_of_nat signed_take_bit_int_eq_self)
  then have "(scast (of_nat n :: 32 word) :: 64 word) = of_nat n"
    by (simp add: scast_eq)
  then show ?thesis
    using n by (simp add: int32_to_size_def unat_of_nat)
qed

lemma size_mul_no_wrap: "n < 2 ^ 63 \<Longrightarrow> (n * 2) mod 2 ^ 64 = (n * 2 :: nat)"
  by simp

subsection \<open>The buffer handed to ICU and the result built from its answer\<close>

lemma dest_eq:
  "std_copy src (AllocatedArray_new (length src * 2)) =
     \<lparr>array_data = Some (map Some src @ replicate (length src) None),
      array_size = 2 * length src\<rparr>"
  by (simp add: std_copy_def AllocatedArray_new_def array_cells_def)

lemma Transliterate_unfold:
  assumes "length src < 2 ^ 63"
    and "r = utrans (map Some src @ replicate (length src) None)
               (size_to_int32 (length src)) (size_to_int32 (2 * length src))
               0 (size_to_int32 (length src)) U_ZERO_ERROR"
  shows "Transliterate utrans src =
           (if U_FAILURE (out_status r) then AllocatedArray_nullptr
            else \<lparr>array_data = Some (out_text r), array_size = int32_to_size (out_length r)\<rparr>)"
  unfolding Transliterate_def Let_def size_mul_no_wrap [OF assms(1)] dest_eq assms(2)
  by (simp add: array_cells_def SetSize_def)

lemma icu_whole_text:
  assumes n: "length src < 2 ^ 30"
  shows "icu_transUChars rules (map Some src @ replicate (length src) None)
               (size_to_int32 (length src)) (size_to_int32 (2 * length src))
               0 (size_to_int32 (length src)) U_ZERO_ERROR
         = icu_whole rules src"
proof -
  have l: "sint (size_to_int32 (length src)) = int (length src)"
    using n by (simp add: sint_size_to_int32)
  have c: "sint (size_to_int32 (2 * length src)) = int (2 * length src)"
    using n by (intro sint_size_to_int32) simp
  have z: "\<not> U_FAILURE U_ZERO_ERROR"
    by (simp add: U_FAILURE_def)
  show ?thesis
    by (simp add: icu_transUChars_def icu_whole_def l c z Let_def list_all_iff nat_mult_distrib)
qed

lemma Transliterate_icu:
  assumes n: "length src < 2 ^ 30"
  shows "Transliterate (icu_transUChars rules) src =
           (if U_FAILURE (out_status (icu_whole rules src)) then AllocatedArray_nullptr
            else \<lparr>array_data = Some (out_text (icu_whole rules src)),
                  array_size = int32_to_size (out_length (icu_whole rules src))\<rparr>)"
proof -
  have n63: "length src < 2 ^ 63"
    using n by (rule less_trans) simp
  show ?thesis
    by (rule Transliterate_unfold [where utrans = "icu_transUChars rules", OF n63])
       (simp only: icu_whole_text [OF n])
qed

lemma Transliterate_overflow:
  assumes n: "length src < 2 ^ 30" and big: "2 * length src < length (rules src)"
  shows "Transliterate (icu_transUChars rules) src = AllocatedArray_nullptr"
proof -
  have "U_FAILURE (out_status (icu_whole rules src))"
    using big by (simp add: icu_whole_def U_FAILURE_def U_ZERO_ERROR_def U_BUFFER_OVERFLOW_ERROR_def)
  then show ?thesis
    by (simp add: Transliterate_icu [OF n])
qed

lemma sint32_lt: "sint (x :: 32 word) < 2147483648"
proof -
  have "sint x < 2 ^ (LENGTH(32) - 1)"
    by (rule sint_lt)
  also have "(2::int) ^ (LENGTH(32) - 1) = 2147483648"
    by simp
  finally show ?thesis .
qed

lemma int32_to_size_nonneg:
  assumes nn: "0 \<le> sint x"
  shows "int (int32_to_size x) = sint x"
proof -
  have "nat (sint x) < 2147483648"
    using nn sint32_lt [of x] by linarith
  also have "(2147483648 :: nat) = 2 ^ 31"
    by simp
  finally have b: "nat (sint x) < 2 ^ 31" .
  have "(of_nat (nat (sint x)) :: 32 word) = of_int (sint x)"
    using nn by (simp only: of_nat_nat)
  then have x: "(of_nat (nat (sint x)) :: 32 word) = x"
    by simp
  have "int32_to_size (of_nat (nat (sint x))) = nat (sint x)"
    using b by (rule int32_to_size_of_nat)
  then have "int32_to_size x = nat (sint x)"
    by (simp only: x)
  then show ?thesis
    using nn by (simp only: int_nat_eq if_True)
qed

lemmas icu_eval = icu_transUChars_def size_to_int32_def int32_to_size_def U_FAILURE_def U_ZERO_ERROR_def
      U_ILLEGAL_ARGUMENT_ERROR_def
      U_BUFFER_OVERFLOW_ERROR_def U_STRING_NOT_TERMINATED_WARNING_def Let_def

subsection \<open>A capacity that wraps\<close>

lemma div_2_31: "2147483648 \<le> x \<Longrightarrow> x < 4294967296 \<Longrightarrow> x div 2147483648 = (1::int)"
  by (rule int_div_pos_eq [where r = "x - 2147483648"]) simp_all

lemma bit_31:
  assumes lo: "2147483648 \<le> m" and hi: "m < (4294967296::nat)"
  shows "bit (int m) 31"
proof -
  have d: "int m div 2147483648 = 1"
    using lo hi by (intro div_2_31) simp_all
  have p: "(2::int) ^ 31 = 2147483648"
    by simp
  have "odd (int m div 2 ^ 31)"
    unfolding p d by simp
  then show ?thesis
    unfolding bit_iff_odd .
qed

lemma sint_size_to_int32_wrapped:
  assumes lo: "2147483648 \<le> m" and hi: "m < (4294967296::nat)"
  shows "sint (size_to_int32 m) < 0"
proof -
  have "sint (of_nat m :: 32 word) = signed_take_bit 31 (int m)"
    by (simp add: signed_of_nat)
  moreover have "signed_take_bit 31 (int m) < 0"
    using bit_31 [OF lo hi] by (simp only: signed_take_bit_negative_iff)
  ultimately show ?thesis
    by (simp only: size_to_int32_def)
qed

lemma Transliterate_capacity_wrapped:
  assumes lo: "2 ^ 30 \<le> length src" and hi: "length src < 2 ^ 31"
  shows "Transliterate (icu_transUChars rules) src = AllocatedArray_nullptr"
proof -
  have p30: "(2::nat) ^ 30 = 1073741824" and p31: "(2::nat) ^ 31 = 2147483648"
    by simp_all
  have lo': "2147483648 \<le> 2 * length src"
    using lo unfolding p30 by linarith
  have hi': "2 * length src < 4294967296"
    using hi unfolding p31 by linarith
  have c: "sint (size_to_int32 (2 * length src)) < 0"
    using lo' hi' by (rule sint_size_to_int32_wrapped)
  have n63: "length src < 2 ^ 63"
    using hi by (rule less_trans) simp
  have "U_FAILURE (out_status (icu_transUChars rules (map Some src @ replicate (length src) None)
               (size_to_int32 (length src)) (size_to_int32 (2 * length src))
               0 (size_to_int32 (length src)) U_ZERO_ERROR))"
    using c by (simp add: icu_transUChars_def U_FAILURE_def U_ZERO_ERROR_def
        U_ILLEGAL_ARGUMENT_ERROR_def)
  then show ?thesis
    by (simp add: Transliterate_unfold [where utrans = "icu_transUChars rules", OF n63 refl])
qed

subsection \<open>Failure of the ICU call\<close>

text \<open>
  Claim C10. \<open>Transliterate\<close> is \<open>noexcept\<close> and has no \<open>throw\<close>: the model is a total
  function with no error result. It calls ICU once, on a copy of the input in a buffer
  whose capacity is twice the input length. Let \<open>r\<close> be what ICU answers. If ICU
  reports a failure, the result is the null array; otherwise the result is an array that
  is not null and whose size is the length ICU reported. In particular, with ICU's
  documented behaviour, a transliteration longer than twice the input is a failure and
  gives the null array. (An input of \<open>2 ^ 63\<close> characters or more cannot exist in
  memory; below that the multiplication by two does not wrap.)
\<close>

theorem Transliterate_null_on_failure:
  assumes "length src < 2 ^ 63"
    and "r = utrans_transUChars (map Some src @ replicate (length src) None)
               (size_to_int32 (length src)) (size_to_int32 (2 * length src))
               0 (size_to_int32 (length src)) U_ZERO_ERROR"
  shows "(U_FAILURE (out_status r) \<longrightarrow> Transliterate utrans_transUChars src = AllocatedArray_nullptr)
       \<and> (\<not> U_FAILURE (out_status r) \<longrightarrow>
            array_data (Transliterate utrans_transUChars src) \<noteq> None
          \<and> array_size (Transliterate utrans_transUChars src) = int32_to_size (out_length r)
          \<and> (0 \<le> sint (out_length r) \<longrightarrow>
               int (array_size (Transliterate utrans_transUChars src)) = sint (out_length r)))
       \<and> (length src < 2 ^ 30 \<and> 2 * length src < length (rules src) \<longrightarrow>
            Transliterate (icu_transUChars rules) src = AllocatedArray_nullptr)"
proof -
  note unfold = Transliterate_unfold [where utrans = utrans_transUChars, OF assms]
  have fail: "Transliterate utrans_transUChars src = AllocatedArray_nullptr"
    if "U_FAILURE (out_status r)"
    using that by (simp add: unfold)
  have data: "array_data (Transliterate utrans_transUChars src) \<noteq> None"
    if "\<not> U_FAILURE (out_status r)"
    using that by (simp add: unfold)
  have sz: "array_size (Transliterate utrans_transUChars src) = int32_to_size (out_length r)"
    if "\<not> U_FAILURE (out_status r)"
    using that by (simp add: unfold)
  have len: "int (array_size (Transliterate utrans_transUChars src)) = sint (out_length r)"
    if "\<not> U_FAILURE (out_status r)" and "0 \<le> sint (out_length r)"
    using that by (simp add: sz int32_to_size_nonneg)
  have over: "Transliterate (icu_transUChars rules) src = AllocatedArray_nullptr"
    if "length src < 2 ^ 30 \<and> 2 * length src < length (rules src)"
    using that by (simp add: Transliterate_overflow)
  from fail data sz len over show ?thesis
    by blast
qed

text \<open>
  The theorem at two inputs: tripling \<open>"a"\<close> needs three characters and the buffer has
  two; keeping \<open>"ab"\<close> fits.
\<close>

theorem Transliterate_null_on_failure_witness:
  "Transliterate (icu_transUChars triple_each) [0x61] = AllocatedArray_nullptr
   \<and> array_data (Transliterate (icu_transUChars keep_each) [0x61, 0x62]) \<noteq> None
   \<and> array_size (Transliterate (icu_transUChars keep_each) [0x61, 0x62]) = 2"
proof -
  have a: "length [0x61 :: UChar] < 2 ^ 63" by simp
  have b: "length [0x61 :: UChar, 0x62] < 2 ^ 63" by simp
  have c: "length [0x61 :: UChar] < 2 ^ 30 \<and> 2 * length [0x61 :: UChar] < length (triple_each [0x61])"
    by simp
  have d: "\<not> U_FAILURE (out_status (icu_transUChars keep_each
               (map Some [0x61, 0x62] @ replicate (length [0x61 :: UChar, 0x62]) None)
               (size_to_int32 (length [0x61 :: UChar, 0x62]))
               (size_to_int32 (2 * length [0x61 :: UChar, 0x62]))
               0 (size_to_int32 (length [0x61 :: UChar, 0x62])) U_ZERO_ERROR))"
    by (simp add: icu_eval)
  have e: "int32_to_size (out_length (icu_transUChars keep_each
               (map Some [0x61, 0x62] @ replicate (length [0x61 :: UChar, 0x62]) None)
               (size_to_int32 (length [0x61 :: UChar, 0x62]))
               (size_to_int32 (2 * length [0x61 :: UChar, 0x62]))
               0 (size_to_int32 (length [0x61 :: UChar, 0x62])) U_ZERO_ERROR)) = 2"
    by (simp add: icu_eval)
  show ?thesis
    using Transliterate_null_on_failure [OF a refl, of "icu_transUChars triple_each" triple_each]
      Transliterate_null_on_failure [OF b refl, of "icu_transUChars keep_each" keep_each]
      c d e
    by simp
qed

subsection \<open>The wrapper against the library's own result\<close>

text \<open>
  Claim C9 as the spec states it: for every input the wrapper returns exactly what the
  library produces, with no size limit and no error translation. It fails: the rule set
  that triples every character turns \<open>"a"\<close> into \<open>"aaa"\<close>, the wrapper's buffer holds two
  characters, ICU reports \<open>U_BUFFER_OVERFLOW_ERROR\<close> and the wrapper returns the null
  array.
\<close>

theorem Transliterate_passthrough_counterexample:
  "array_text (Transliterate (icu_transUChars triple_each) [0x61]) \<noteq> Some (triple_each [0x61])"
  by (simp add: Transliterate_def icu_eval AllocatedArray_new_def std_copy_def array_cells_def
      array_text_def AllocatedArray_nullptr_def)


text \<open>
  Claim C9, amended. For every input shorter than \<open>2 ^ 30\<close> characters the wrapper
  hands the whole input to the library with a destination capacity fixed at twice the
  input length: when the library's result fits in that capacity, the wrapper returns an
  array that is not null, has the size of the library's result and holds exactly the
  library's result; when it does not fit, the library's buffer-overflow error is turned
  into the null array. For an input of \<open>2 ^ 30\<close> up to, not including, \<open>2 ^ 31\<close>
  characters the capacity no longer fits the \<open>int32_t\<close> argument of the call and the
  wrapper returns the null array whatever the library computes.
\<close>

theorem Transliterate_library_text_if_it_fits:
  "(length src < 2 ^ 30 \<longrightarrow>
      (if length (rules src) \<le> 2 * length src
       then array_data (Transliterate (icu_transUChars rules) src) \<noteq> None
          \<and> array_size (Transliterate (icu_transUChars rules) src) = length (rules src)
          \<and> array_text (Transliterate (icu_transUChars rules) src) = Some (rules src)
       else Transliterate (icu_transUChars rules) src = AllocatedArray_nullptr))
   \<and> (2 ^ 30 \<le> length src \<and> length src < 2 ^ 31 \<longrightarrow>
        Transliterate (icu_transUChars rules) src = AllocatedArray_nullptr)"
proof (intro conjI impI)
  assume n: "length src < 2 ^ 30"
  show "if length (rules src) \<le> 2 * length src
       then array_data (Transliterate (icu_transUChars rules) src) \<noteq> None
          \<and> array_size (Transliterate (icu_transUChars rules) src) = length (rules src)
          \<and> array_text (Transliterate (icu_transUChars rules) src) = Some (rules src)
       else Transliterate (icu_transUChars rules) src = AllocatedArray_nullptr"
  proof (cases "length (rules src) \<le> 2 * length src")
    case True
    then have m: "length (rules src) < 2 ^ 31" using n by simp
    have ok: "\<not> U_FAILURE (out_status (icu_whole rules src))"
      using True
      by (simp add: icu_whole_def U_FAILURE_def U_ZERO_ERROR_def
          U_STRING_NOT_TERMINATED_WARNING_def)
    have sz: "int32_to_size (out_length (icu_whole rules src)) = length (rules src)"
      by (simp add: icu_whole_def int32_to_size_of_nat [OF m])
    have tx: "take (length (rules src)) (out_text (icu_whole rules src)) = map Some (rules src)"
      using True by (simp add: icu_whole_def)
    have ln: "length (rules src) \<le> length (out_text (icu_whole rules src))"
      using True by (simp add: icu_whole_def)
    show ?thesis
      using True by (simp add: Transliterate_icu [OF n] ok sz array_text_def tx ln list_all_iff comp_def)
  next
    case False
    then have "Transliterate (icu_transUChars rules) src = AllocatedArray_nullptr"
      using n by (simp add: Transliterate_overflow)
    with False show ?thesis
      by simp
  qed
next
  assume "2 ^ 30 \<le> length src \<and> length src < 2 ^ 31"
  then show "Transliterate (icu_transUChars rules) src = AllocatedArray_nullptr"
    by (simp add: Transliterate_capacity_wrapped)
qed

theorem Transliterate_library_text_if_it_fits_witness:
  "array_data (Transliterate (icu_transUChars keep_each) [0x61, 0x62]) \<noteq> None
   \<and> array_size (Transliterate (icu_transUChars keep_each) [0x61, 0x62]) = 2
   \<and> array_text (Transliterate (icu_transUChars keep_each) [0x61, 0x62]) = Some [0x61, 0x62]
   \<and> Transliterate (icu_transUChars triple_each) [0x61, 0x62] = AllocatedArray_nullptr
   \<and> Transliterate (icu_transUChars keep_each) (replicate (2 ^ 30) 0x61) = AllocatedArray_nullptr"
proof -
  have l: "length (replicate (2 ^ 30) (0x61 :: UChar)) = 2 ^ 30"
    by (rule length_replicate)
  have b: "(2::nat) ^ 30 \<le> 2 ^ 30 \<and> (2::nat) ^ 30 < 2 ^ 31"
    by simp
  have big: "Transliterate (icu_transUChars keep_each) (replicate (2 ^ 30) 0x61) = AllocatedArray_nullptr"
    using Transliterate_library_text_if_it_fits [of "replicate (2 ^ 30) 0x61" keep_each] b
    unfolding l by blast
  have small: "array_data (Transliterate (icu_transUChars keep_each) [0x61, 0x62]) \<noteq> None
   \<and> array_size (Transliterate (icu_transUChars keep_each) [0x61, 0x62]) = 2
   \<and> array_text (Transliterate (icu_transUChars keep_each) [0x61, 0x62]) = Some [0x61, 0x62]
   \<and> Transliterate (icu_transUChars triple_each) [0x61, 0x62] = AllocatedArray_nullptr"
    using Transliterate_library_text_if_it_fits [of "[0x61, 0x62]" keep_each]
      Transliterate_library_text_if_it_fits [of "[0x61, 0x62]" triple_each]
    by simp
  from small big show ?thesis
    by blast
qed


section \<open>Properties of the member functions defined in the header\<close>

text \<open>
  Claim C5. \<open>HasClients\<close> is true if and only if the client collection is not empty,
  that is, if and only if it has a member.
\<close>

theorem HasClients_iff_nonempty:
  "HasClients s = (clients s \<noteq> []) \<and> HasClients s = (\<exists>c. c \<in> set (clients s))"
proof -
  have "(clients s \<noteq> []) = (\<exists>c. c \<in> set (clients s))"
    by (cases "clients s") auto
  then show ?thesis
    by (simp add: HasClients_def)
qed

theorem HasClients_iff_nonempty_witness:
  "HasClients ((initial :: unit SnapcastOutput)\<lparr>clients := [0]\<rparr>)
   \<and> \<not> HasClients (initial :: unit SnapcastOutput)"
  using HasClients_iff_nonempty [of "(initial :: unit SnapcastOutput)\<lparr>clients := [0]\<rparr>"]
    HasClients_iff_nonempty [of "initial :: unit SnapcastOutput"]
  by (simp add: initial_def)

text \<open>
  Claim C6. \<open>LockHasClients\<close> takes the mutex, asks \<open>HasClients\<close> and releases the
  mutex. Called as documented, by a caller that does not hold the mutex, it returns the
  same boolean as \<open>HasClients\<close> and leaves the state as it was. (With the mutex held it
  does not return.)
\<close>

theorem LockHasClients_same_as_HasClients:
  "LockHasClients s = (if mutex s then None else Some (HasClients s, s))"
proof (cases "mutex s")
  case True
  then show ?thesis
    by (simp add: LockHasClients_def lock_guard_def)
next
  case False
  then have "s\<lparr>mutex := True\<rparr>\<lparr>mutex := False\<rparr> = s"
    by (cases s) simp
  with False show ?thesis
    by (simp add: LockHasClients_def lock_guard_def lock_guard_release_def HasClients_def)
qed

theorem LockHasClients_same_as_HasClients_witness:
  "LockHasClients ((initial :: unit SnapcastOutput)\<lparr>clients := [0]\<rparr>)
     = Some (True, initial\<lparr>clients := [0]\<rparr>)
   \<and> LockHasClients (initial :: unit SnapcastOutput) = Some (False, initial)
   \<and> LockHasClients ((initial :: unit SnapcastOutput)\<lparr>mutex := True\<rparr>) = None"
  using LockHasClients_same_as_HasClients [of "(initial :: unit SnapcastOutput)\<lparr>clients := [0]\<rparr>"]
    LockHasClients_same_as_HasClients [of "initial :: unit SnapcastOutput"]
    LockHasClients_same_as_HasClients [of "(initial :: unit SnapcastOutput)\<lparr>mutex := True\<rparr>"]
  by (simp add: initial_def HasClients_def)

text \<open>
  Claim C8. The codec name is the string \<open>"pcm"\<close>, in every state of every server.
\<close>

theorem GetCodecName_is_pcm:
  "GetCodecName s = ''pcm''"
  by (simp add: GetCodecName_def)

section \<open>Properties of the server whose member functions are modelled from the spec\<close>

subsection \<open>What the steps leave alone\<close>

lemma deliver_fields [simp]:
  "open_flag (deliver c m s) = open_flag s"
  "encoder (deliver c m s) = encoder s"
  "codec_header (deliver c m s) = codec_header s"
  "unflushed_input (deliver c m s) = unflushed_input s"
  "clients (deliver c m s) = clients s"
  "disposed (deliver c m s) = disposed s"
  "next_client (deliver c m s) = next_client s"
  "encoder_consumed (deliver c m s) = encoder_consumed s"
  "flush_calls (deliver c m s) = flush_calls s"
  "sent (deliver c m s) = (sent s)(c := sent s c @ [m])"
  by (simp_all add: deliver_def)

lemma RemoveClient_fields [simp]:
  "open_flag (RemoveClient c s) = open_flag s"
  "encoder (RemoveClient c s) = encoder s"
  "codec_header (RemoveClient c s) = codec_header s"
  "unflushed_input (RemoveClient c s) = unflushed_input s"
  "next_client (RemoveClient c s) = next_client s"
  "encoder_consumed (RemoveClient c s) = encoder_consumed s"
  "flush_calls (RemoveClient c s) = flush_calls s"
  "sent (RemoveClient c s) = sent s"
  by (simp_all add: RemoveClient_def)

lemma BroadcastTo_fields [simp]:
  "open_flag (BroadcastTo cs payload t failing s) = open_flag s"
  "encoder (BroadcastTo cs payload t failing s) = encoder s"
  "codec_header (BroadcastTo cs payload t failing s) = codec_header s"
  "unflushed_input (BroadcastTo cs payload t failing s) = unflushed_input s"
  "next_client (BroadcastTo cs payload t failing s) = next_client s"
  "encoder_consumed (BroadcastTo cs payload t failing s) = encoder_consumed s"
  "flush_calls (BroadcastTo cs payload t failing s) = flush_calls s"
  by (induction cs arbitrary: s; simp)+

lemma AddClient_fields [simp]:
  "open_flag (AddClient fd s) = open_flag s"
  "encoder (AddClient fd s) = encoder s"
  "codec_header (AddClient fd s) = codec_header s"
  "unflushed_input (AddClient fd s) = unflushed_input s"
  "encoder_consumed (AddClient fd s) = encoder_consumed s"
  "flush_calls (AddClient fd s) = flush_calls s"
  "disposed (AddClient fd s) = disposed s"
  "next_client (AddClient fd s) = Suc (next_client s)"
  "clients (AddClient fd s) = clients s @ [next_client s]"
  "sent (AddClient fd s) =
     (sent s)(next_client s := sent s (next_client s) @ [CodecHeader (GetCodecHeader s)])"
  by (simp_all add: AddClient_def Let_def GetCodecHeader_def)

subsection \<open>The encoder steps\<close>

lemma Feed_Inr:
  assumes "Feed cfg chunk s = Inr (n, s1)"
  obtains e e1 where "encoder s = Some e"
    and "enc_feed (prepared_encoder cfg) e chunk = Some (n, e1)"
    and "s1 = s\<lparr>encoder := Some e1, unflushed_input := unflushed_input s + n,
                 encoder_consumed := encoder_consumed s + n\<rparr>"
  using assms by (auto simp: Feed_def split: option.splits)

lemma Drain_Inr:
  assumes "Drain cfg s = Inr (out, s1)"
  obtains e e1 where "encoder s = Some e"
    and "enc_drain (prepared_encoder cfg) e = Some (out, e1)"
    and "s1 = s\<lparr>encoder := Some e1,
                 unflushed_input := (if out = [] then unflushed_input s else 0),
                 encoder_emitted := encoder_emitted s + length out\<rparr>"
  using assms by (auto simp: Drain_def split: option.splits)

lemma Flush_Inr:
  assumes "Flush cfg s = Inr (out, s1)"
  obtains e e1 where "encoder s = Some e"
    and "enc_flush (prepared_encoder cfg) e = Some (out, e1)"
    and "s1 = s\<lparr>encoder := Some e1,
                 unflushed_input := (if out = [] then unflushed_input s else 0),
                 encoder_emitted := encoder_emitted s + length out,
                 flush_calls := flush_calls s + 1\<rparr>"
  using assms by (auto simp: Flush_def split: option.splits)

text \<open>The steps of a \<open>Play\<close> call that returns.\<close>

lemma Play_Inr:
  assumes "Play cfg chunk now failing s = Inr (n, s')"
  shows "\<exists>s1 out1 s2 payload s4.
           open_flag s
         \<and> Feed cfg chunk s = Inr (n, s1)
         \<and> Drain cfg s1 = Inr (out1, s2)
         \<and> (if FlushHeuristic (unflushed_input s2) (flush_threshold cfg)
            then \<exists>out2 s3. Flush cfg s2 = Inr (out2, s3) \<and> payload = out1 @ out2
                    \<and> s4 = s3\<lparr>unflushed_input := 0\<rparr>
            else payload = out1 \<and> s4 = s2)
         \<and> s' = (if payload = [] then s4 else BroadcastWireChunk payload now failing s4)"
proof -
  from assms have o: "open_flag s"
    by (simp add: Play_def split: if_splits)
  from assms o obtain s1 where f: "Feed cfg chunk s = Inr (n, s1)"
    by (auto simp: Play_def split: sum.splits prod.splits)
  from assms o f obtain out1 s2 where d: "Drain cfg s1 = Inr (out1, s2)"
    by (auto simp: Play_def split: sum.splits prod.splits)
  show ?thesis
  proof (cases "FlushHeuristic (unflushed_input s2) (flush_threshold cfg)")
    case True
    with assms o f d obtain out2 s3 where fl: "Flush cfg s2 = Inr (out2, s3)"
      by (auto simp: Play_def split: sum.splits prod.splits)
    with assms o f d True
    have "s' = (if out1 @ out2 = [] then s3\<lparr>unflushed_input := 0\<rparr>
                else BroadcastWireChunk (out1 @ out2) now failing (s3\<lparr>unflushed_input := 0\<rparr>))"
      by (simp add: Play_def)
    with o f d True fl show ?thesis
      by (intro exI conjI) (assumption | simp)+
  next
    case False
    with assms o f d
    have "s' = (if out1 = [] then s2 else BroadcastWireChunk out1 now failing s2)"
      by (simp add: Play_def)
    with o f d False show ?thesis
      by (intro exI conjI) (assumption | simp)+
  qed
qed

text \<open>A \<open>Play\<close> call that returns changed the registry only by a broadcast.\<close>

lemma Play_registry:
  assumes "Play cfg chunk now failing s = Inr (n, s')"
  shows "\<exists>s4 payload.
           clients s4 = clients s \<and> disposed s4 = disposed s \<and> sent s4 = sent s
         \<and> next_client s4 = next_client s
         \<and> (s' = s4 \<or> s' = BroadcastTo (clients s4) payload now failing s4)"
proof -
  from Play_Inr [OF assms] obtain s1 out1 s2 payload s4 where
    f: "Feed cfg chunk s = Inr (n, s1)" and d: "Drain cfg s1 = Inr (out1, s2)"
    and h: "if FlushHeuristic (unflushed_input s2) (flush_threshold cfg)
            then \<exists>out2 s3. Flush cfg s2 = Inr (out2, s3) \<and> payload = out1 @ out2
                    \<and> s4 = s3\<lparr>unflushed_input := 0\<rparr>
            else payload = out1 \<and> s4 = s2"
    and r: "s' = (if payload = [] then s4 else BroadcastWireChunk payload now failing s4)"
    by blast
  have 1: "clients s1 = clients s \<and> disposed s1 = disposed s \<and> sent s1 = sent s
           \<and> next_client s1 = next_client s"
    using f by (auto elim!: Feed_Inr)
  have 2: "clients s2 = clients s1 \<and> disposed s2 = disposed s1 \<and> sent s2 = sent s1
           \<and> next_client s2 = next_client s1"
    using d by (auto elim!: Drain_Inr)
  have 4: "clients s4 = clients s2 \<and> disposed s4 = disposed s2 \<and> sent s4 = sent s2
           \<and> next_client s4 = next_client s2"
    using h by (auto elim!: Flush_Inr split: if_splits)
  from r have "s' = s4 \<or> s' = BroadcastTo (clients s4) payload now failing s4"
    by (auto simp: BroadcastWireChunk_def)
  with 1 2 4 show ?thesis
    by (intro exI [of _ s4] exI [of _ payload]) simp
qed

lemma Play_fields:
  assumes "Play cfg chunk now failing s = Inr (n, s')"
  shows "open_flag s" and "open_flag s'" and "encoder s \<noteq> None" and "encoder s' \<noteq> None"
    and "codec_header s' = codec_header s"
    and "encoder_consumed s' = encoder_consumed s + n"
    and "next_client s' = next_client s"
proof -
  from Play_Inr [OF assms] obtain s1 out1 s2 payload s4 where
    o: "open_flag s" and
    f: "Feed cfg chunk s = Inr (n, s1)" and d: "Drain cfg s1 = Inr (out1, s2)"
    and h: "if FlushHeuristic (unflushed_input s2) (flush_threshold cfg)
            then \<exists>out2 s3. Flush cfg s2 = Inr (out2, s3) \<and> payload = out1 @ out2
                    \<and> s4 = s3\<lparr>unflushed_input := 0\<rparr>
            else payload = out1 \<and> s4 = s2"
    and r: "s' = (if payload = [] then s4 else BroadcastWireChunk payload now failing s4)"
    by blast
  have 1: "open_flag s1 = open_flag s \<and> encoder s \<noteq> None \<and> encoder s1 \<noteq> None
           \<and> codec_header s1 = codec_header s
           \<and> encoder_consumed s1 = encoder_consumed s + n \<and> next_client s1 = next_client s"
    using f by (auto elim!: Feed_Inr)
  have 2: "open_flag s2 = open_flag s1 \<and> encoder s2 \<noteq> None
           \<and> codec_header s2 = codec_header s1
           \<and> encoder_consumed s2 = encoder_consumed s1 \<and> next_client s2 = next_client s1"
    using d by (auto elim!: Drain_Inr)
  have 4: "open_flag s4 = open_flag s2 \<and> encoder s4 \<noteq> None
           \<and> codec_header s4 = codec_header s2
           \<and> encoder_consumed s4 = encoder_consumed s2 \<and> next_client s4 = next_client s2"
    using h 2 by (auto elim!: Flush_Inr split: if_splits)
  have 5: "open_flag s' = open_flag s4 \<and> encoder s' = encoder s4
           \<and> codec_header s' = codec_header s4
           \<and> encoder_consumed s' = encoder_consumed s4 \<and> next_client s' = next_client s4"
    using r by (simp add: BroadcastWireChunk_def)
  from o show "open_flag s" .
  from o 1 2 4 5 show "open_flag s'" by simp
  from 1 show "encoder s \<noteq> None" by simp
  from 4 5 show "encoder s' \<noteq> None" by simp
  from 1 2 4 5 show "codec_header s' = codec_header s" by simp
  from 1 2 4 5 show "encoder_consumed s' = encoder_consumed s + n" by simp
  from 1 2 4 5 show "next_client s' = next_client s" by simp
qed

lemma Open_Inr:
  assumes "Open cfg audio_format s = Inr s'"
  obtains e h where "enc_open (prepared_encoder cfg) audio_format = Some (e, h)"
    and "s' = s\<lparr>encoder := Some e, codec_header := Some h,
                 timer := Some audio_format, open_flag := True\<rparr>"
  using assms by (auto simp: Open_def OpenEncoder_def split: option.splits)

lemma Close_fields [simp]:
  "open_flag (Close cfg s) = False"
  "encoder (Close cfg s) = (if open_flag s then None else encoder s)"
  "codec_header (Close cfg s) = (if open_flag s then None else codec_header s)"
  "clients (Close cfg s) = clients s"
  "disposed (Close cfg s) = disposed s"
  "sent (Close cfg s) = sent s"
  "next_client (Close cfg s) = next_client s"
  "encoder_consumed (Close cfg s) = encoder_consumed s"
  by (auto simp: Close_def Flush_def Let_def split: sum.splits option.splits)

lemma Cancel_fields [simp]:
  "open_flag (Cancel cfg s) = open_flag s"
  "(encoder (Cancel cfg s) = None) = (encoder s = None)"
  "codec_header (Cancel cfg s) = codec_header s"
  "clients (Cancel cfg s) = clients s"
  "disposed (Cancel cfg s) = disposed s"
  "sent (Cancel cfg s) = sent s"
  "next_client (Cancel cfg s) = next_client s"
  "encoder_consumed (Cancel cfg s) = encoder_consumed s"
  by (simp_all add: Cancel_def)

lemma Enable_fields [simp]:
  "open_flag (Enable s) = open_flag s"
  "encoder (Enable s) = encoder s"
  "codec_header (Enable s) = codec_header s"
  "clients (Enable s) = clients s"
  "disposed (Enable s) = disposed s"
  "sent (Enable s) = sent s"
  "next_client (Enable s) = next_client s"
  "encoder_consumed (Enable s) = encoder_consumed s"
  by (simp_all add: Enable_def Bind_def)

lemma Disable_fields [simp]:
  "open_flag (Disable s) = open_flag s"
  "encoder (Disable s) = encoder s"
  "codec_header (Disable s) = codec_header s"
  "clients (Disable s) = clients s"
  "disposed (Disable s) = disposed s"
  "sent (Disable s) = sent s"
  "next_client (Disable s) = next_client s"
  "encoder_consumed (Disable s) = encoder_consumed s"
  by (simp_all add: Disable_def Unbind_def)

subsection \<open>One call\<close>

lemma exec_encoder_iff_open:
  assumes "encoder_iff_open s"
  shows "encoder_iff_open (snd (exec cfg x s))"
proof (cases x)
  case (OpOpen f)
  with assms show ?thesis
    by (auto simp: encoder_iff_open_def split: sum.splits elim!: Open_Inr)
next
  case (OpPlay chunk now failing)
  with assms show ?thesis
    by (auto simp: encoder_iff_open_def split: sum.splits dest: Play_fields)
qed (use assms in \<open>auto simp: encoder_iff_open_def Pause_def\<close>)

lemma exec_header_iff_open:
  assumes "header_iff_open s"
  shows "header_iff_open (snd (exec cfg x s))"
proof (cases x)
  case (OpOpen f)
  with assms show ?thesis
    by (auto simp: header_iff_open_def split: sum.splits elim!: Open_Inr)
next
  case (OpPlay chunk now failing)
  with assms show ?thesis
    by (auto simp: header_iff_open_def split: sum.splits dest: Play_fields)
qed (use assms in \<open>auto simp: header_iff_open_def Pause_def\<close>)

lemma exec_consumed:
  "encoder_consumed (snd (exec cfg x s)) =
     encoder_consumed s + (case fst (exec cfg x s) of Accepted n \<Rightarrow> n | _ \<Rightarrow> 0)"
proof (cases x)
  case (OpOpen f)
  then show ?thesis
    by (auto split: sum.splits elim!: Open_Inr)
next
  case (OpPlay chunk now failing)
  then show ?thesis
    by (auto split: sum.splits dest: Play_fields)
qed (auto simp: Pause_def)

subsection \<open>The registry\<close>

lemma registry_ok_cong:
  assumes "clients s' = clients s" "disposed s' = disposed s" "sent s' = sent s"
    "next_client s' = next_client s"
  shows "registry_ok s' = registry_ok s"
  by (simp add: registry_ok_def assms)

lemma registry_ok_linked_lt:
  "registry_ok s \<Longrightarrow> c \<in> set (clients s) \<Longrightarrow> c < next_client s"
  by (rule ccontr) (simp add: registry_ok_def not_less)

lemma registry_ok_RemoveClient:
  assumes "registry_ok s"
  shows "registry_ok (RemoveClient c s)"
proof (cases "c \<in> set (clients s)")
  case False
  with assms show ?thesis by (simp add: RemoveClient_def)
next
  case True
  from assms have d: "distinct (clients s)" and nd: "c \<notin> set (disposed s)"
    using True by (auto simp: registry_ok_def)
  from d have "set (remove1 c (clients s)) = set (clients s) - {c}"
    by (rule set_remove1_eq)
  with assms True nd show ?thesis
    by (auto simp: registry_ok_def RemoveClient_def)
qed

lemma registry_ok_deliver:
  assumes "registry_ok s" "c < next_client s"
  shows "registry_ok (deliver c m s)"
  using assms by (auto simp: registry_ok_def)

lemma registry_ok_BroadcastTo:
  assumes "registry_ok s" "\<forall>c \<in> set cs. c < next_client s"
  shows "registry_ok (BroadcastTo cs payload t failing s)"
  using assms
proof (induction cs arbitrary: s)
  case Nil
  then show ?case by simp
next
  case (Cons c cs)
  show ?case
  proof (cases "c \<in> set failing")
    case True
    with Cons.prems show ?thesis
      by (simp add: Cons.IH registry_ok_RemoveClient)
  next
    case False
    with Cons.prems show ?thesis
      by (simp add: Cons.IH registry_ok_deliver)
  qed
qed

lemma registry_ok_AddClient:
  assumes "registry_ok s"
  shows "registry_ok (AddClient fd s)"
  using assms by (auto simp: registry_ok_def)

lemma registry_ok_initial: "registry_ok initial"
  by (simp add: registry_ok_def initial_def)

lemma exec_registry_ok:
  assumes "registry_ok s"
  shows "registry_ok (snd (exec cfg x s))"
proof (cases x)
  case (OpOpen f)
  with assms show ?thesis
    by (auto simp: registry_ok_def split: sum.splits elim!: Open_Inr)
next
  case (OpPlay chunk now failing)
  show ?thesis
  proof (cases "Play cfg chunk now failing s")
    case (Inl e)
    with assms OpPlay show ?thesis by simp
  next
    case (Inr r)
    obtain n s' where r: "r = (n, s')" by (cases r)
    from Play_registry [OF Inr [unfolded r]] obtain s4 payload where
      eq: "clients s4 = clients s" "disposed s4 = disposed s" "sent s4 = sent s"
          "next_client s4 = next_client s"
      and s': "s' = s4 \<or> s' = BroadcastTo (clients s4) payload now failing s4"
      by blast
    have ok4: "registry_ok s4"
      using assms by (simp add: registry_ok_cong [OF eq])
    then have "registry_ok (BroadcastTo (clients s4) payload now failing s4)"
      by (rule registry_ok_BroadcastTo) (simp add: registry_ok_linked_lt [OF ok4])
    with ok4 s' have "registry_ok s'" by auto
    with OpPlay Inr r show ?thesis by simp
  qed
next
  case OpClose
  with assms show ?thesis by (simp add: registry_ok_def)
next
  case OpCancel
  with assms show ?thesis by (simp add: registry_ok_def)
next
  case OpEnable
  with assms show ?thesis by (simp add: registry_ok_def)
next
  case OpDisable
  with assms show ?thesis by (simp add: registry_ok_def)
next
  case OpPause
  with assms show ?thesis by (simp add: Pause_def)
next
  case (OpAddClient fd)
  with assms show ?thesis by (simp add: registry_ok_AddClient)
next
  case (OpRemoveClient c)
  with assms show ?thesis by (simp add: registry_ok_RemoveClient)
qed

subsection \<open>What a client has been sent\<close>

lemma header_then_chunks_chunk:
  "header_then_chunks h ms \<Longrightarrow> header_then_chunks h (ms @ [WireChunk payload t])"
  by (cases ms) simp_all

lemma header_then_chunks_BroadcastTo:
  assumes "header_then_chunks h (sent s c)"
  shows "header_then_chunks h (sent (BroadcastTo cs payload t failing s) c)"
  using assms
proof (induction cs arbitrary: s)
  case Nil
  then show ?case by simp
next
  case (Cons c' cs)
  show ?case
  proof (cases "c' \<in> set failing")
    case True
    with Cons.prems show ?thesis
      by (simp add: Cons.IH)
  next
    case False
    from Cons.prems have "header_then_chunks h (sent (deliver c' (WireChunk payload t) s) c)"
      by (auto simp: header_then_chunks_chunk)
    with False show ?thesis
      by (simp add: Cons.IH)
  qed
qed

lemma exec_header_then_chunks:
  assumes "c < next_client s" "header_then_chunks h (sent s c)"
  shows "c < next_client (snd (exec cfg x s))
       \<and> header_then_chunks h (sent (snd (exec cfg x s)) c)"
proof (cases x)
  case (OpOpen f)
  with assms show ?thesis
    by (auto split: sum.splits elim!: Open_Inr)
next
  case (OpPlay chunk now failing)
  show ?thesis
  proof (cases "Play cfg chunk now failing s")
    case (Inl e)
    with assms OpPlay show ?thesis by simp
  next
    case (Inr r)
    obtain n s' where r: "r = (n, s')" by (cases r)
    from Play_registry [OF Inr [unfolded r]] obtain s4 payload where
      eq: "sent s4 = sent s" "next_client s4 = next_client s"
      and s': "s' = s4 \<or> s' = BroadcastTo (clients s4) payload now failing s4"
      by blast
    from assms eq have "header_then_chunks h (sent s4 c)" by simp
    then have "header_then_chunks h (sent (BroadcastTo (clients s4) payload now failing s4) c)"
      by (rule header_then_chunks_BroadcastTo)
    with s' eq assms have "c < next_client s' \<and> header_then_chunks h (sent s' c)"
      by auto
    with OpPlay Inr r show ?thesis by simp
  qed
qed (use assms in \<open>auto simp: Pause_def\<close>)

subsection \<open>Executions\<close>

lemma run_encoder_iff_open:
  "encoder_iff_open s \<Longrightarrow> encoder_iff_open (run cfg xs s)"
  by (induction xs arbitrary: s) (simp_all add: exec_encoder_iff_open)

lemma run_header_iff_open:
  "header_iff_open s \<Longrightarrow> header_iff_open (run cfg xs s)"
  by (induction xs arbitrary: s) (simp_all add: exec_header_iff_open)

lemma run_registry_ok:
  "registry_ok s \<Longrightarrow> registry_ok (run cfg xs s)"
  by (induction xs arbitrary: s) (simp_all add: exec_registry_ok)

lemma run_header_then_chunks:
  "c < next_client s \<Longrightarrow> header_then_chunks h (sent s c) \<Longrightarrow>
   header_then_chunks h (sent (run cfg xs s) c)"
proof (induction xs arbitrary: s)
  case Nil
  then show ?case by simp
next
  case (Cons x xs)
  from exec_header_then_chunks [OF Cons.prems, of cfg x]
  show ?case by (simp add: Cons.IH)
qed

lemma BroadcastTo_evicts:
  assumes "c \<in> set failing" and "distinct (clients s)"
    and "c \<in> set (clients s) \<longrightarrow> c \<in> set cs"
  shows "c \<notin> set (clients (BroadcastTo cs payload t failing s))"
  using assms
proof (induction cs arbitrary: s)
  case Nil
  then show ?case by simp
next
  case (Cons c' cs)
  show ?case
  proof (cases "c' \<in> set failing")
    case False
    with Cons.prems have ne: "c' \<noteq> c" by auto
    have "c \<notin> set (clients (BroadcastTo cs payload t failing
                               (deliver c' (WireChunk payload t) s)))"
    proof (rule Cons.IH)
      show "c \<in> set failing" by (rule Cons.prems(1))
      show "distinct (clients (deliver c' (WireChunk payload t) s))"
        using Cons.prems(2) by simp
      show "c \<in> set (clients (deliver c' (WireChunk payload t) s)) \<longrightarrow> c \<in> set cs"
        using Cons.prems(3) ne by auto
    qed
    with False show ?thesis
      by simp
  next
    case True
    have d: "distinct (clients (RemoveClient c' s))"
      using Cons.prems(2) by (simp add: RemoveClient_def)
    have "c \<in> set (clients (RemoveClient c' s)) \<longrightarrow> c \<in> set cs"
    proof (cases "c' = c")
      case True
      with Cons.prems(2) show ?thesis
        by (simp add: RemoveClient_def)
    next
      case False
      with Cons.prems(3) show ?thesis
        by (auto simp: RemoveClient_def Cons.prems(2) split: if_splits)
    qed
    with True d Cons.prems(1) show ?thesis
      by (simp add: Cons.IH)
  qed
qed

subsection \<open>The counters of the encoder adapter\<close>

lemma counters_fields [simp]:
  "encoder_emitted (deliver c m s) = encoder_emitted s"
  "encoder_emitted (RemoveClient c s) = encoder_emitted s"
  "encoder_emitted (AddClient fd s) = encoder_emitted s"
  "encoder_emitted (Cancel cfg s) = encoder_emitted s"
  "encoder_emitted (Enable s) = encoder_emitted s"
  "encoder_emitted (Disable s) = encoder_emitted s"
  "unflushed_input (Cancel cfg s) = unflushed_input s"
  "unflushed_input (Enable s) = unflushed_input s"
  "unflushed_input (Disable s) = unflushed_input s"
  by (simp_all add: deliver_def RemoveClient_def AddClient_def Let_def Cancel_def Enable_def
      Disable_def Bind_def Unbind_def)

lemma BroadcastTo_emitted [simp]:
  "encoder_emitted (BroadcastTo cs payload t failing s) = encoder_emitted s"
  by (induction cs arbitrary: s) simp_all





subsection \<open>Evaluation on the example encoders\<close>

lemmas server_eval =
  Play_def Feed_def Drain_def Flush_def FlushHeuristic_def BroadcastWireChunk_def
  Open_def OpenEncoder_def Close_def Cancel_def Pause_def Enable_def Disable_def Bind_def
  Unbind_def AddClient_def RemoveClient_def deliver_def GetCodecHeader_def initial_def
  example_config_def example_config_flush_fails_def example_encoder_def stereo48k_def Let_def

subsection \<open>Bytes accepted and bytes consumed\<close>

text \<open>
  Claim C1. In every execution, from every state, the \<open>bytesAccepted\<close> values that the
  \<open>Play\<close> calls return add up to the number of input bytes the encoder consumed during
  the execution: every byte the encoder took is reported once. Only a \<open>Play\<close> call on
  an open output returns a value; other calls consume nothing.
\<close>

theorem Play_accepted_sum_is_consumed:
  "encoder_consumed (run cfg xs s) = encoder_consumed s + sum_list (accepted cfg xs s)"
proof (induction xs arbitrary: s)
  case Nil
  show ?case by simp
next
  case (Cons x xs)
  have "encoder_consumed (run cfg (x # xs) s)
          = encoder_consumed (snd (exec cfg x s)) + sum_list (accepted cfg xs (snd (exec cfg x s)))"
    by (simp add: Cons.IH)
  also have "encoder_consumed (snd (exec cfg x s))
          = encoder_consumed s + (case fst (exec cfg x s) of Accepted n \<Rightarrow> n | _ \<Rightarrow> 0)"
    by (rule exec_consumed)
  finally show ?case
    by (simp split: outcome.splits)
qed

theorem Play_accepted_sum_is_consumed_witness:
  "accepted (example_config True 100)
     [OpOpen stereo48k, OpAddClient 5, OpPlay [1, 2, 3] 10 [], OpPause, OpPlay [4, 5] 11 []]
     initial = [3, 2]
   \<and> encoder_consumed (run (example_config True 100)
        [OpOpen stereo48k, OpAddClient 5, OpPlay [1, 2, 3] 10 [], OpPause, OpPlay [4, 5] 11 []]
        initial) = 5"
proof -
  have a: "accepted (example_config True 100)
     [OpOpen stereo48k, OpAddClient 5, OpPlay [1, 2, 3] 10 [], OpPause, OpPlay [4, 5] 11 []]
     initial = [3, 2]"
    by (simp add: server_eval)
  show ?thesis
    using Play_accepted_sum_is_consumed [of "example_config True 100"
        "[OpOpen stereo48k, OpAddClient 5, OpPlay [1, 2, 3] 10 [], OpPause, OpPlay [4, 5] 11 []]"
        initial]
    by (simp only: a) (simp add: initial_def)
qed

subsection \<open>Header first\<close>

text \<open>
  Claim C2. Let \<open>s\<close> be a reachable state in which the output is open, and let a client
  be enrolled in \<open>s\<close>. Then the codec header of \<open>s\<close> is defined, and after every
  further execution what that client has been sent is that codec header followed by wire
  chunks only: its first message is the header and no chunk comes before it.
\<close>

theorem header_before_any_chunk:
  assumes "s = run cfg before initial" and "open_flag s"
  shows "\<exists>h. codec_header s = Some h
           \<and> header_then_chunks h
                 (sent (run cfg after (snd (exec cfg (OpAddClient fd) s))) (next_client s))"
proof -
  have "header_iff_open s"
    unfolding assms(1)
    by (rule run_header_iff_open) (simp add: header_iff_open_def initial_def)
  with assms(2) obtain h where h: "codec_header s = Some h"
    by (auto simp: header_iff_open_def)
  have "registry_ok s"
    unfolding assms(1) by (rule run_registry_ok) (rule registry_ok_initial)
  then have fresh: "sent s (next_client s) = []"
    by (simp add: registry_ok_def)
  let ?s1 = "snd (exec cfg (OpAddClient fd) s)"
  have lt: "next_client s < next_client ?s1"
    by simp
  have first: "header_then_chunks h (sent ?s1 (next_client s))"
    using fresh h by (simp add: GetCodecHeader_def)
  have "header_then_chunks h (sent (run cfg after ?s1) (next_client s))"
    using lt first by (rule run_header_then_chunks)
  with h show ?thesis
    by blast
qed

theorem header_before_any_chunk_witness:
  "open_flag (run (example_config True 100) [OpOpen stereo48k, OpPlay [9] 7 []] initial)
   \<and> sent (run (example_config True 100)
             [OpPlay [1, 2, 3] 10 [], OpAddClient 6, OpPlay [4, 5] 11 []]
             (snd (exec (example_config True 100) (OpAddClient 5)
                (run (example_config True 100) [OpOpen stereo48k, OpPlay [9] 7 []] initial))))
        0
     = [CodecHeader [82, 73, 70, 70], WireChunk [1, 2, 3] 10, WireChunk [4, 5] 11]"
proof -
  have o: "open_flag (run (example_config True 100) [OpOpen stereo48k, OpPlay [9] 7 []] initial)"
    by (simp add: server_eval)
  have n: "next_client (run (example_config True 100) [OpOpen stereo48k, OpPlay [9] 7 []] initial) = 0"
    by (simp add: server_eval)
  have l: "sent (run (example_config True 100)
             [OpPlay [1, 2, 3] 10 [], OpAddClient 6, OpPlay [4, 5] 11 []]
             (snd (exec (example_config True 100) (OpAddClient 5)
                (run (example_config True 100) [OpOpen stereo48k, OpPlay [9] 7 []] initial))))
        0
     = [CodecHeader [82, 73, 70, 70], WireChunk [1, 2, 3] 10, WireChunk [4, 5] 11]"
    by (simp add: server_eval)
  show ?thesis
    using header_before_any_chunk [OF refl o,
        of "[OpPlay [1, 2, 3] 10 [], OpAddClient 6, OpPlay [4, 5] 11 []]" 5]
    by (simp only: n l o)
qed

subsection \<open>Encoder and open flag\<close>

text \<open>
  Claim C3. In every reachable state the encoder pointer is non-null if and only if the
  open flag is true, and each of the calls \<open>Enable\<close>, \<open>Disable\<close>, \<open>Open\<close>, \<open>Close\<close>,
  \<open>Play\<close>, \<open>Cancel\<close>, \<open>Pause\<close>, \<open>AddClient\<close> and \<open>RemoveClient\<close> preserves this,
  whether it returns or throws.
\<close>

theorem encoder_nonnull_iff_open:
  "((encoder (run cfg xs initial) \<noteq> None) = open_flag (run cfg xs initial))
   \<and> (((encoder s \<noteq> None) = open_flag s) \<longrightarrow>
        ((encoder (snd (exec cfg x s)) \<noteq> None) = open_flag (snd (exec cfg x s))))"
proof -
  have "encoder_iff_open (initial :: 'a SnapcastOutput)"
    by (simp add: encoder_iff_open_def initial_def)
  then have "encoder_iff_open (run cfg xs initial)"
    by (rule run_encoder_iff_open)
  moreover have "encoder_iff_open s \<longrightarrow> encoder_iff_open (snd (exec cfg x s))"
    by (simp add: exec_encoder_iff_open)
  ultimately show ?thesis
    by (simp add: encoder_iff_open_def)
qed

theorem encoder_nonnull_iff_open_witness:
  "encoder (run (example_config True 100) [OpOpen stereo48k, OpPlay [1, 2, 3] 10 []] initial)
     = Some ([], [])
   \<and> open_flag (run (example_config True 100) [OpOpen stereo48k, OpPlay [1, 2, 3] 10 []] initial)
   \<and> encoder (snd (exec (example_config True 100) OpClose
        (run (example_config True 100) [OpOpen stereo48k, OpPlay [1, 2, 3] 10 []] initial))) = None
   \<and> \<not> open_flag (snd (exec (example_config True 100) OpClose
        (run (example_config True 100) [OpOpen stereo48k, OpPlay [1, 2, 3] 10 []] initial)))"
proof -
  have e: "encoder (run (example_config True 100) [OpOpen stereo48k, OpPlay [1, 2, 3] 10 []] initial)
     = Some ([], [])"
    by (simp add: server_eval)
  have c: "encoder (snd (exec (example_config True 100) OpClose
        (run (example_config True 100) [OpOpen stereo48k, OpPlay [1, 2, 3] 10 []] initial))) = None"
    by (simp add: server_eval)
  show ?thesis
    using encoder_nonnull_iff_open [of "example_config True 100"
        "[OpOpen stereo48k, OpPlay [1, 2, 3] 10 []]"
        "run (example_config True 100) [OpOpen stereo48k, OpPlay [1, 2, 3] 10 []] initial"
        OpClose] e c
    by (metis option.distinct(1))
qed

subsection \<open>The forced flush\<close>



subsection \<open>Removing a client\<close>

text \<open>
  Claim C7. In every reachable state: removing a client twice is the same as removing it
  once; removing a client that was already destroyed changes nothing; a removal makes the
  registry shorter by at most one; no client is destroyed twice; and a client evicted by
  a failed delivery during a broadcast can be removed again without effect.
  \<open>RemoveClient\<close> has no error result.
\<close>

theorem RemoveClient_idempotent:
  assumes "s = run cfg xs initial"
  shows "RemoveClient c (RemoveClient c s) = RemoveClient c s
       \<and> (c \<in> set (disposed s) \<longrightarrow> RemoveClient c s = s)
       \<and> length (clients (RemoveClient c s)) \<le> length (clients s)
       \<and> length (clients s) \<le> length (clients (RemoveClient c s)) + 1
       \<and> distinct (disposed (RemoveClient c s))
       \<and> (c \<in> set failing \<longrightarrow>
            RemoveClient c (BroadcastWireChunk payload t failing s)
              = BroadcastWireChunk payload t failing s)"
proof -
  have ok: "registry_ok s"
    unfolding assms by (rule run_registry_ok) (rule registry_ok_initial)
  then have d: "distinct (clients s)"
    by (simp add: registry_ok_def)
  have gone: "c \<notin> set (clients (RemoveClient c s))"
    using d by (simp add: RemoveClient_def)
  then have 1: "RemoveClient c (RemoveClient c s) = RemoveClient c s"
    by (simp add: RemoveClient_def [of c "RemoveClient c s"])
  have 2: "c \<in> set (disposed s) \<longrightarrow> RemoveClient c s = s"
    using ok by (auto simp: registry_ok_def RemoveClient_def)
  have 3: "length (clients (RemoveClient c s)) \<le> length (clients s)"
    by (simp add: RemoveClient_def length_remove1)
  have 4: "length (clients s) \<le> length (clients (RemoveClient c s)) + 1"
    by (auto simp: RemoveClient_def length_remove1)
  have "registry_ok (RemoveClient c s)"
    using ok by (rule registry_ok_RemoveClient)
  then have 5: "distinct (disposed (RemoveClient c s))"
    by (simp add: registry_ok_def)
  have 6: "RemoveClient c (BroadcastWireChunk payload t failing s)
              = BroadcastWireChunk payload t failing s" if "c \<in> set failing"
  proof -
    have "c \<notin> set (clients (BroadcastTo (clients s) payload t failing s))"
      using that d by (rule BroadcastTo_evicts) simp
    then show ?thesis
      by (simp add: BroadcastWireChunk_def RemoveClient_def)
  qed
  from 1 2 3 4 5 6 show ?thesis
    by blast
qed

theorem RemoveClient_idempotent_witness:
  "clients (run (example_config True 100) [OpAddClient 5, OpAddClient 6] initial) = [0, 1]
   \<and> clients (RemoveClient 0 (run (example_config True 100) [OpAddClient 5, OpAddClient 6] initial))
       = [1]
   \<and> RemoveClient 0 (RemoveClient 0
         (run (example_config True 100) [OpAddClient 5, OpAddClient 6] initial))
       = RemoveClient 0 (run (example_config True 100) [OpAddClient 5, OpAddClient 6] initial)
   \<and> disposed (RemoveClient 0 (RemoveClient 0
         (run (example_config True 100) [OpAddClient 5, OpAddClient 6] initial))) = [0]"
proof -
  let ?s = "run (example_config True 100) [OpAddClient 5, OpAddClient 6] initial"
  have a: "clients ?s = [0, 1]"
    by (simp add: server_eval)
  have b: "clients (RemoveClient 0 ?s) = [1]"
    by (simp add: server_eval)
  have c: "disposed (RemoveClient 0 ?s) = [0]"
    by (simp add: server_eval)
  from RemoveClient_idempotent [OF refl, of 0 "example_config True 100" "[OpAddClient 5, OpAddClient 6]"]
  have i: "RemoveClient 0 (RemoveClient 0 ?s) = RemoveClient 0 ?s"
    by blast
  show ?thesis
    by (simp only: i a b c)
qed

end
